theory Spec2Isabelle
  imports Main
begin

section \<open>JavaScript values read and shown by the pages\<close>

text \<open>
  A value of type \<open>any\<close>, as far as the pages look at it. The type \<open>'n\<close> is the type
  of numbers; \<open>formatValue\<close> and \<open>updateParam\<close> compare a number with strings and
  with null only.
\<close>

datatype 'n jsvalue = JNull | JUndefined | JString string | JNumber 'n | JBool bool

section \<open>ListPage: \<open>formatValue\<close>\<close>

text \<open>
  \<^verbatim>\<open>export function formatValue(value: any, fallback: string = "-")\<close>.
  The second argument is optional: \<open>None\<close> is a call with one argument, which is how
  every call site of ListPage and DetailPage calls it. The comparisons are \<open>===\<close>, so the
  last one matches the string \<open>"-1"\<close> only.
\<close>

definition formatValue :: "'n jsvalue \<Rightarrow> string option \<Rightarrow> 'n jsvalue" where
  "formatValue v fallback =
     (if v = JNull \<or> v = JUndefined \<or> v = JString [] \<or> v = JString ''-1''
      then JString (case fallback of None \<Rightarrow> ''-'' | Some f \<Rightarrow> f)
      else v)"

section \<open>DishSuggester\<close>

datatype match_type = MatchAll | MatchSome

text \<open>A dish of a result list: only \<open>id\<close> and \<open>name\<close> are read by the widget.\<close>

record dish =
  dish_id :: string
  dish_name :: string

record suggester =
  options :: "string list"
  selected :: "string list"
  search :: string
  results :: "dish list"
  matchType :: match_type

definition init_suggester :: suggester where
  "init_suggester =
     \<lparr>options = [], selected = [], search = [], results = [], matchType = MatchAll\<rparr>"

text \<open>\<open>toggle\<close>: remove the ingredient when it is selected, append it otherwise.\<close>

definition toggle :: "string \<Rightarrow> suggester \<Rightarrow> suggester" where
  "toggle ing s =
     s\<lparr>selected := (if ing \<in> set (selected s)
                      then filter (\<lambda>x. x \<noteq> ing) (selected s)
                      else selected s @ [ing])\<rparr>"

definition setMatchType :: "match_type \<Rightarrow> suggester \<Rightarrow> suggester" where
  "setMatchType m s = s\<lparr>matchType := m\<rparr>"

definition setSearch :: "string \<Rightarrow> suggester \<Rightarrow> suggester" where
  "setSearch t s = s\<lparr>search := t\<rparr>"

text \<open>
  \<open>clearAll\<close>: three state setters called in one event handler; React applies them in
  one render, so the handler is one transition of the state.
\<close>

definition clearAll :: "suggester \<Rightarrow> suggester" where
  "clearAll s = s\<lparr>selected := [], results := [], search := []\<rparr>"

section \<open>Header: search box, debounced suggestions, selection\<close>

text \<open>
  The field \<open>by\<close> of the component is named \<open>searchBy\<close> here (\<open>by\<close> is a keyword of
  the proof language); \<open>searchBy\<close> is also the key under which the component stores it.
\<close>

datatype dimension = Name | Ingredient | Origin | State

fun dimension_key :: "dimension \<Rightarrow> string" where
  "dimension_key Name = ''name''"
| "dimension_key Ingredient = ''ingredient''"
| "dimension_key Origin = ''origin''"
| "dimension_key State = ''state''"

text \<open>
  A suggestion is \<open>any\<close> in the source: the menu renders a plain string, or an object by
  its \<open>name\<close>. \<open>SObject i n\<close> is an object with optional \<open>id\<close> and \<open>name\<close>.
\<close>

datatype suggestion = SText string | SObject "string option" "string option"

text \<open>\<open>s.id\<close> as a condition: a string has no \<open>id\<close>; an empty \<open>id\<close> is falsy.\<close>

fun truthy_id :: "suggestion \<Rightarrow> string option" where
  "truthy_id (SText t) = None"
| "truthy_id (SObject None n) = None"
| "truthy_id (SObject (Some i) n) = (if i = [] then None else Some i)"

text \<open>\<open>String(s)\<close>.\<close>

fun String_of_suggestion :: "suggestion \<Rightarrow> string" where
  "String_of_suggestion (SText t) = t"
| "String_of_suggestion (SObject i n) = ''[object Object]''"

text \<open>
  Where \<open>nav\<close> goes. The two targets are kept structured, before percent-encoding:
  \<open>DetailRoute i\<close> is \<^verbatim>\<open>/dishes/${encodeURIComponent(i)}\<close>, and \<open>RootQuery ps\<close> is
  \<^verbatim>\<open>/?${params.toString()}\<close> for the parameter bag \<open>ps\<close>.
\<close>

datatype location = DetailRoute string | RootQuery "(string \<times> string) list"

text \<open>
  The closure handed to \<open>setTimeout(doFetch, 250)\<close>: when it is due, the effect instance
  that created it, and the \<open>q\<close> and \<open>by\<close> of the render it closes over.
\<close>

record pending =
  deadline :: nat
  teffect :: nat
  tq :: string
  tby :: dimension

text \<open>
  A call of \<open>autosuggest(q, by, 20)\<close>. \<open>rid\<close> is its position in the log of calls,
  \<open>reffect\<close> the effect instance whose \<open>mounted\<close> variable its continuation reads.
\<close>

record request =
  rid :: nat
  reffect :: nat
  rq :: string
  rby :: dimension
  rlimit :: nat
  rtime :: nat

text \<open>
  How an awaited call ends: \<open>Fulfilled d\<close> with a body whose \<open>data\<close> is \<open>d\<close> (\<open>None\<close>
  when it is missing or falsy, read as \<open>r.data || []\<close>), \<open>EmptyBody\<close> with a null
  body (reading \<open>r.data\<close> throws inside the \<open>try\<close>), or \<open>Rejected\<close>.
\<close>

datatype response = Fulfilled "suggestion list option" | EmptyBody | Rejected

text \<open>
  The component state. \<open>clock\<close> is the time in milliseconds. \<open>effect\<close> numbers the
  instances of the suggestions effect: the instance \<open>effect s\<close> is the one whose
  \<open>mounted\<close> is still \<open>true\<close>, every earlier one has run its cleanup. \<open>calls\<close> logs
  every network call issued, \<open>inflight\<close> those not settled yet, \<open>navigated\<close> the calls
  of \<open>nav\<close>, \<open>console\<close> the calls of \<open>console.error\<close>, \<open>stored_by\<close> the
  \<open>searchBy\<close> item of the session storage.
\<close>

record header =
  q :: string
  searchBy :: dimension
  suggests :: "suggestion list"
  menuOpen :: bool
  clock :: nat
  effect :: nat
  timer :: "pending option"
  inflight :: "request list"
  calls :: "request list"
  navigated :: "location list"
  console :: "string list"
  stored_by :: "dimension option"

text \<open>
  One run of the effect body after a render in which \<open>q\<close> or \<open>by\<close> changed (and after
  the first render): the cleanup of the previous instance sets its \<open>mounted\<close> to false
  and clears its timer, the new instance starts with \<open>mounted = true\<close> and a timer of
  250 ms.
\<close>

definition run_effect :: "header \<Rightarrow> header" where
  "run_effect s =
     s\<lparr>effect := Suc (effect s),
       timer := Some \<lparr>deadline = clock s + 250, teffect = Suc (effect s),
                      tq = q s, tby = searchBy s\<rparr>\<rparr>"

text \<open>The first render: state initialisers, then the effect.\<close>

definition init_header :: "dimension option \<Rightarrow> header" where
  "init_header stored =
     run_effect
       \<lparr>q = [], searchBy = (case stored of None \<Rightarrow> Name | Some d \<Rightarrow> d),
        suggests = [], menuOpen = False, clock = 0, effect = 0, timer = None,
        inflight = [], calls = [], navigated = [], console = [], stored_by = stored\<rparr>"

text \<open>
  \<open>setQ\<close> and \<open>setBy\<close>: a state setter called with the current value does not render
  again, and an effect runs again only when one of its dependencies \<open>[q, by]\<close> changed.
\<close>

definition setQ :: "string \<Rightarrow> header \<Rightarrow> header" where
  "setQ v s = (if v = q s then s else run_effect (s\<lparr>q := v\<rparr>))"

definition setBy :: "dimension \<Rightarrow> header \<Rightarrow> header" where
  "setBy d s = (if d = searchBy s then s else run_effect (s\<lparr>searchBy := d\<rparr>))"

text \<open>The option handler of the dropdown: \<open>setBy(value)\<close>, then the session storage.\<close>

definition onOptionSelect :: "dimension \<Rightarrow> header \<Rightarrow> header" where
  "onOptionSelect d s = (setBy d s)\<lparr>stored_by := Some d\<rparr>"

text \<open>
  \<open>doFetch\<close> up to its \<open>await\<close>, run by the timer \<open>p\<close>: with an empty \<open>q\<close> it clears
  the suggestions and returns; otherwise it issues the call.
\<close>

definition doFetch :: "pending \<Rightarrow> header \<Rightarrow> header" where
  "doFetch p s =
     (if tq p = [] then s\<lparr>suggests := [], menuOpen := False\<rparr>
      else
        let r = \<lparr>rid = length (calls s), reffect = teffect p, rq = tq p, rby = tby p,
                 rlimit = 20, rtime = deadline p\<rparr>
        in s\<lparr>inflight := inflight s @ [r], calls := calls s @ [r]\<rparr>)"

text \<open>
  \<open>doFetch\<close> after its \<open>await\<close>, for the call \<open>r\<close>: \<open>mounted\<close> is the variable of the
  effect instance that issued \<open>r\<close>. The \<open>catch\<close> logs and does nothing else.
\<close>

definition doFetch_resume :: "request \<Rightarrow> response \<Rightarrow> header \<Rightarrow> header" where
  "doFetch_resume r resp s =
     (let mounted = (reffect r = effect s) in
      case resp of
        Fulfilled d \<Rightarrow>
          if mounted
          then s\<lparr>suggests := (case d of None \<Rightarrow> [] | Some xs \<Rightarrow> xs),
                 menuOpen := (0 < length (case d of None \<Rightarrow> [] | Some xs \<Rightarrow> xs))\<rparr>
          else s
      | EmptyBody \<Rightarrow>
          if mounted then s\<lparr>console := console s @ [''Error fetching suggestions:'']\<rparr>
          else s
      | Rejected \<Rightarrow> s\<lparr>console := console s @ [''Error fetching suggestions:'']\<rparr>)"

text \<open>
  Time passes by \<open>d\<close> milliseconds with no other event: a timer that falls due in
  between runs \<open>doFetch\<close>.
\<close>

definition elapse :: "nat \<Rightarrow> header \<Rightarrow> header" where
  "elapse d s =
     (case timer s of
        None \<Rightarrow> s\<lparr>clock := clock s + d\<rparr>
      | Some p \<Rightarrow>
          if deadline p \<le> clock s + d
          then (doFetch p (s\<lparr>timer := None\<rparr>))\<lparr>clock := clock s + d\<rparr>
          else s\<lparr>clock := clock s + d\<rparr>)"

text \<open>A call in flight settles: its continuation runs.\<close>

definition settle :: "nat \<Rightarrow> response \<Rightarrow> header \<Rightarrow> header" where
  "settle i resp s =
     (case find (\<lambda>r. rid r = i) (inflight s) of
        None \<Rightarrow> s
      | Some r \<Rightarrow> doFetch_resume r resp (s\<lparr>inflight := filter (\<lambda>r. rid r \<noteq> i) (inflight s)\<rparr>))"

definition handleClickOutside :: "header \<Rightarrow> header" where
  "handleClickOutside s = s\<lparr>menuOpen := False\<rparr>"

text \<open>\<open>handleSelect\<close> of the component with four search dimensions.\<close>

definition handleSelect :: "suggestion \<Rightarrow> header \<Rightarrow> header" where
  "handleSelect x s =
     (let s1 = (case truthy_id x of
                  Some i \<Rightarrow> s\<lparr>navigated := navigated s @ [DetailRoute i]\<rparr>
                | None \<Rightarrow>
                    s\<lparr>navigated := navigated s @
                        [RootQuery [(dimension_key (searchBy s), String_of_suggestion x)]]\<rparr>)
      in setQ [] (s1\<lparr>menuOpen := False, suggests := []\<rparr>))"

text \<open>
  \<open>handleSelect\<close> of the other copy of the component in the repository (three search
  dimensions, \<open>autosuggest(q, by, 8)\<close>): the detail branch returns before the clean-up.
  \<open>State\<close> cannot be selected in that copy; no branch sets a parameter for it.
\<close>

definition handleSelect_three :: "suggestion \<Rightarrow> header \<Rightarrow> header" where
  "handleSelect_three x s =
     (case (if searchBy s = Name then truthy_id x else None) of
        Some i \<Rightarrow> s\<lparr>navigated := navigated s @ [DetailRoute i]\<rparr>
      | None \<Rightarrow>
          let params =
                (if searchBy s = Origin then [(''origin'', String_of_suggestion x)]
                 else if searchBy s = Ingredient then [(''ingredient'', String_of_suggestion x)]
                 else if searchBy s = Name
                   then [(''q'', String_of_suggestion x), (''by'', ''name'')]
                 else [])
          in setQ [] (s\<lparr>navigated := navigated s @ [RootQuery params],
                        menuOpen := False, suggests := []\<rparr>))"

text \<open>
  What can happen to the component. A menu item exists only while the menu is rendered
  (\<open>menuOpen && suggests.length > 0\<close>), one per suggestion.
\<close>

datatype event =
    Input string
  | OptionSelect dimension
  | Elapse nat
  | Settle nat response
  | ClickOutside
  | Select suggestion

fun step :: "header \<Rightarrow> event \<Rightarrow> header" where
  "step s (Input v) = setQ v s"
| "step s (OptionSelect d) = onOptionSelect d s"
| "step s (Elapse d) = elapse d s"
| "step s (Settle i resp) = settle i resp s"
| "step s ClickOutside = handleClickOutside s"
| "step s (Select x) =
     (if menuOpen s \<and> x \<in> set (suggests s) then handleSelect x s else s)"

definition run :: "event list \<Rightarrow> header \<Rightarrow> header" where
  "run es s = foldl step s es"

text \<open>
  An update of the query: the text typed into the input, or an option chosen in the
  dropdown of the dimension.
\<close>

datatype update = NewText string | NewDimension dimension

fun update_event :: "update \<Rightarrow> event" where
  "update_event (NewText v) = Input v"
| "update_event (NewDimension d) = OptionSelect d"

text \<open>The query, text and dimension, after an update.\<close>

fun updated :: "update \<Rightarrow> string \<times> dimension \<Rightarrow> string \<times> dimension" where
  "updated (NewText v) (t, d) = (v, d)"
| "updated (NewDimension e) (t, d) = (t, e)"

text \<open>A burst of updates: a first one, then further ones, each after a gap.\<close>

fun burst :: "update \<Rightarrow> (nat \<times> update) list \<Rightarrow> event list" where
  "burst u [] = [update_event u]"
| "burst u ((g, w) # rest) = update_event u # Elapse g # burst w rest"

text \<open>The query after the burst, starting from the query \<open>c\<close>.\<close>

fun final_query :: "string \<times> dimension \<Rightarrow> update \<Rightarrow> (nat \<times> update) list \<Rightarrow> string \<times> dimension" where
  "final_query c u [] = updated u c"
| "final_query c u ((g, w) # rest) = final_query (updated u c) w rest"

text \<open>
  Each update of the burst changes the query it meets: a text other than the current
  one, or a dimension other than the current one.
\<close>

fun changing :: "string \<times> dimension \<Rightarrow> update \<Rightarrow> (nat \<times> update) list \<Rightarrow> bool" where
  "changing c u [] = (updated u c \<noteq> c)"
| "changing c u ((g, w) # rest) = (updated u c \<noteq> c \<and> changing (updated u c) w rest)"

section \<open>Numbers of the address: what ListPage uses of JavaScript\<close>




section \<open>ListPage: parameters in the address, sorting in the component\<close>

text \<open>
  \<open>URLSearchParams\<close>: an ordered bag of pairs. \<open>get\<close> returns the first value of a key,
  \<open>set\<close> overwrites the first and removes the others (or appends), \<open>delete\<close> removes all.
\<close>

type_synonym params = "(string \<times> string) list"






















section \<open>The operations on decimal integers\<close>

text \<open>
  One implementation of the operations, on the integers and \<open>NaN\<close>, used to run the
  page on concrete addresses. It reads an optional sign and decimal digits, and the
  empty string as 0, and writes an integer in plain decimal: on these strings, and on
  integers of magnitude up to \<open>2 ^ 53\<close>, it computes what JavaScript computes. It is not
  JavaScript elsewhere (fractions, exponents, hexadecimal and padded forms are read as
  \<open>NaN\<close>, and no result is rounded); no property of the page is stated over it.
\<close>

datatype jsnum = Num int | NaN














section \<open>Login\<close>

record user =
  email :: string
  password :: string

text \<open>
  The \<open>users\<close> item of the local storage as \<open>handleLogin\<close> reads it: absent (read as
  \<open>"[]"\<close>), a text that makes \<open>JSON.parse\<close> or the search throw, or a list of users.
\<close>

datatype users_item = NoItem | Unparsable | UsersJson "user list"

text \<open>
  \<open>user_item\<close> holds the email of the stored \<open>{ email }\<close> object, \<open>login_item\<close> the
  text stored under \<open>login\<close>.
\<close>

record local_storage =
  login_item :: "string option"
  user_item :: "string option"
  users_item :: users_item

record login_page =
  storage :: local_storage
  error :: "string option"
  redirects :: "string list"
  logged :: "string list"

definition handleLogin :: "string \<Rightarrow> string \<Rightarrow> login_page \<Rightarrow> login_page" where
  "handleLogin e p s =
     (case users_item (storage s) of
        Unparsable \<Rightarrow>
          s\<lparr>logged := logged s @ [''Error during login:''],
            error := Some ''An error occurred during login''\<rparr>
      | item \<Rightarrow>
          let users = (case item of UsersJson us \<Rightarrow> us | _ \<Rightarrow> []) in
          (case find (\<lambda>u. email u = e \<and> password u = p) users of
             None \<Rightarrow> s\<lparr>error := Some ''Invalid credentials''\<rparr>
           | Some found \<Rightarrow>
               s\<lparr>storage := (storage s)\<lparr>user_item := Some e, login_item := Some ''true''\<rparr>,
                 redirects := redirects s @ [''/dishes'']\<rparr>))"

section \<open>Predicates used in the proofs\<close>


text \<open>
  What holds of the header in every reachable state. A pending timer belongs to the
  current effect instance, closes over the current \<open>q\<close> and \<open>by\<close>, and is due within
  250 ms; while it is pending that instance has issued no call.
\<close>

definition timer_ok :: "header \<Rightarrow> bool" where
  "timer_ok s =
     (case timer s of
        None \<Rightarrow> True
      | Some p \<Rightarrow>
          teffect p = effect s \<and> tq p = q s \<and> tby p = searchBy s
          \<and> clock s < deadline p \<and> deadline p \<le> clock s + 250
          \<and> (\<forall>r \<in> set (calls s). reffect r < effect s))"

text \<open>
  Calls in flight are in the log; a call's \<open>rid\<close> is its position there; no call was
  issued for an empty text; the call of the current effect instance, if there is one,
  is the last of the log and was issued for the current \<open>q\<close> and \<open>by\<close>.
\<close>

definition calls_ok :: "header \<Rightarrow> bool" where
  "calls_ok s =
     (set (inflight s) \<subseteq> set (calls s)
      \<and> (\<forall>i < length (calls s). rid (calls s ! i) = i)
      \<and> (\<forall>r \<in> set (calls s).
            reffect r \<le> effect s \<and> rq r \<noteq> []
            \<and> (reffect r = effect s \<longrightarrow>
                  rq r = q s \<and> rby r = searchBy s \<and> Suc (rid r) = length (calls s))))"

text \<open>With an empty text and no timer pending, nothing is suggested.\<close>

definition idle_ok :: "header \<Rightarrow> bool" where
  "idle_ok s = (q s = [] \<and> timer s = None \<longrightarrow> suggests s = [] \<and> \<not> menuOpen s)"

definition header_inv :: "header \<Rightarrow> bool" where
  "header_inv s = (timer_ok s \<and> calls_ok s \<and> idle_ok s)"

section \<open>Properties of DishSuggester\<close>

text \<open>
  C10. For every recommender state, \<open>clearAll\<close> resets the ingredient selection, the
  results list and the search-within-ingredients text to empty in one step, and leaves
  the match mode and the loaded ingredient candidates unchanged.
\<close>

theorem clearAll_resets_and_frames:
  "selected (clearAll s) = [] \<and> results (clearAll s) = [] \<and> search (clearAll s) = []
   \<and> matchType (clearAll s) = matchType s \<and> options (clearAll s) = options s"
  by (simp add: clearAll_def)

section \<open>Properties of \<open>formatValue\<close>\<close>

text \<open>
  C8, as stated, at the number \<open>-1\<close>: the comparison is with the string \<open>"-1"\<close>, so
  the number is returned as it is and not replaced by the fallback.
\<close>

theorem formatValue_number_counterexample:
  "formatValue (JNumber (Num (- 1))) None = JNumber (Num (- 1))
   \<and> formatValue (JNumber (Num (- 1))) None \<noteq> JString ''-''"
  by (simp add: formatValue_def)

text \<open>
  C8 (amended). Called with one argument, \<open>formatValue\<close> returns \<open>"-"\<close> when the value
  is null, undefined, the empty string or the string \<open>"-1"\<close>, and the value itself
  otherwise (the number \<open>-1\<close> included); the result is never null, undefined or the
  empty string.
\<close>

theorem formatValue_fallback:
  "formatValue v None =
     (if v = JNull \<or> v = JUndefined \<or> v = JString [] \<or> v = JString ''-1''
      then JString ''-'' else v)
   \<and> formatValue v None \<noteq> JNull \<and> formatValue v None \<noteq> JUndefined
   \<and> formatValue v None \<noteq> JString []"
  by (simp add: formatValue_def)

text \<open>The amended C8 at the string \<open>"-1"\<close>, at an ordinary value and at null.\<close>

theorem formatValue_fallback_witness:
  "formatValue (JString ''-1'' :: jsnum jsvalue) None = JString ''-''
   \<and> formatValue (JString ''45'' :: jsnum jsvalue) None = JString ''45''
   \<and> formatValue (JNull :: jsnum jsvalue) None = JString ''-''"
  using formatValue_fallback [of "JString ''-1'' :: jsnum jsvalue"]
    formatValue_fallback [of "JString ''45'' :: jsnum jsvalue"]
    formatValue_fallback [of "JNull :: jsnum jsvalue"]
  by simp

section \<open>Properties of Login\<close>

lemma handleLogin_no_match:
  assumes "users_item (storage s) = UsersJson us \<or> (users_item (storage s) = NoItem \<and> us = [])"
    and "find (\<lambda>u. email u = e \<and> password u = p) us = None"
  shows "handleLogin e p s = s\<lparr>error := Some ''Invalid credentials''\<rparr>"
  using assms(1)
proof
  assume "users_item (storage s) = UsersJson us"
  then show ?thesis using assms(2) by (simp add: handleLogin_def)
next
  assume "users_item (storage s) = NoItem \<and> us = []"
  then show ?thesis by (simp add: handleLogin_def)
qed

lemma handleLogin_match:
  assumes "users_item (storage s) = UsersJson us"
    and "find (\<lambda>u. email u = e \<and> password u = p) us = Some found"
  shows "handleLogin e p s =
           s\<lparr>storage := (storage s)\<lparr>user_item := Some e, login_item := Some ''true''\<rparr>,
             redirects := redirects s @ [''/dishes'']\<rparr>"
  using assms by (simp add: handleLogin_def)

text \<open>
  C9. For every email, password and stored list of users (an absent item is the empty
  list): when some stored user has this email and this password, \<open>handleLogin\<close>
  stores the identity and the login marker, leaves the list of users as it is and
  redirects to the list view; otherwise it reports \<open>Invalid credentials\<close> and changes
  nothing in the storage, and does not redirect.
\<close>

theorem handleLogin_credentials:
  assumes "users_item (storage s) = UsersJson us
           \<or> (users_item (storage s) = NoItem \<and> us = [])"
  shows "if \<exists>u \<in> set us. email u = e \<and> password u = p
         then storage (handleLogin e p s)
                = (storage s)\<lparr>user_item := Some e, login_item := Some ''true''\<rparr>
              \<and> users_item (storage (handleLogin e p s)) = users_item (storage s)
              \<and> redirects (handleLogin e p s) = redirects s @ [''/dishes'']
              \<and> error (handleLogin e p s) = error s
         else storage (handleLogin e p s) = storage s
              \<and> redirects (handleLogin e p s) = redirects s
              \<and> error (handleLogin e p s) = Some ''Invalid credentials''"
proof (cases "find (\<lambda>u. email u = e \<and> password u = p) us")
  case None
  then have no: "\<not> (\<exists>u \<in> set us. email u = e \<and> password u = p)"
    by (simp add: find_None_iff)
  have "handleLogin e p s = s\<lparr>error := Some ''Invalid credentials''\<rparr>"
    using assms None by (rule handleLogin_no_match)
  then show ?thesis using no by simp
next
  case (Some found)
  then have "find (\<lambda>u. email u = e \<and> password u = p) us \<noteq> None" by simp
  then have yes: "\<exists>u \<in> set us. email u = e \<and> password u = p"
    by (auto simp: find_None_iff)
  from Some have "us \<noteq> []" by auto
  with assms have "users_item (storage s) = UsersJson us" by blast
  then have "handleLogin e p s =
           s\<lparr>storage := (storage s)\<lparr>user_item := Some e, login_item := Some ''true''\<rparr>,
             redirects := redirects s @ [''/dishes'']\<rparr>"
    using Some by (rule handleLogin_match)
  then show ?thesis using yes by simp
qed

text \<open>C9 at one stored user: the matching pair logs in, a wrong password does not.\<close>

theorem handleLogin_credentials_witness:
  "storage (handleLogin ''a@x.com'' ''p''
      \<lparr>storage = \<lparr>login_item = None, user_item = None,
                   users_item = UsersJson [\<lparr>email = ''a@x.com'', password = ''p''\<rparr>]\<rparr>,
       error = None, redirects = [], logged = []\<rparr>)
     = \<lparr>login_item = Some ''true'', user_item = Some ''a@x.com'',
        users_item = UsersJson [\<lparr>email = ''a@x.com'', password = ''p''\<rparr>]\<rparr>
   \<and> error (handleLogin ''a@x.com'' ''q''
      \<lparr>storage = \<lparr>login_item = None, user_item = None,
                   users_item = UsersJson [\<lparr>email = ''a@x.com'', password = ''p''\<rparr>]\<rparr>,
       error = None, redirects = [], logged = []\<rparr>) = Some ''Invalid credentials''"
  using handleLogin_credentials
    [of "\<lparr>storage = \<lparr>login_item = None, user_item = None,
                   users_item = UsersJson [\<lparr>email = ''a@x.com'', password = ''p''\<rparr>]\<rparr>,
       error = None, redirects = [], logged = []\<rparr>"
      "[\<lparr>email = ''a@x.com'', password = ''p''\<rparr>]" "''a@x.com''" "''p''"]
    handleLogin_credentials
    [of "\<lparr>storage = \<lparr>login_item = None, user_item = None,
                   users_item = UsersJson [\<lparr>email = ''a@x.com'', password = ''p''\<rparr>]\<rparr>,
       error = None, redirects = [], logged = []\<rparr>"
      "[\<lparr>email = ''a@x.com'', password = ''p''\<rparr>]" "''a@x.com''" "''q''"]
  by simp

section \<open>The operations on decimal integers are operations as the proofs use them\<close>














section \<open>Properties of ListPage\<close>
































section \<open>Properties of Header\<close>

lemma inv_run_effect:
  assumes "header_inv s"
    and "calls s' = calls s" and "inflight s' = inflight s" and "effect s' = effect s"
  shows "header_inv (run_effect s')"
proof -
  from assms(1) have c: "calls_ok s" by (simp add: header_inv_def)
  have t: "timer_ok (run_effect s')"
    using c assms(2-4) by (auto simp: timer_ok_def run_effect_def calls_ok_def less_Suc_eq_le)
  have c': "calls_ok (run_effect s')"
    using c assms(2-4) by (auto simp: run_effect_def calls_ok_def)
  have "idle_ok (run_effect s')" by (simp add: idle_ok_def run_effect_def)
  with t c' show ?thesis by (simp add: header_inv_def)
qed

lemma inv_init: "header_inv (init_header b)"
  by (simp add: init_header_def run_effect_def header_inv_def timer_ok_def calls_ok_def
      idle_ok_def)

lemma inv_setQ: "header_inv s \<Longrightarrow> header_inv (setQ v s)"
  by (simp add: setQ_def inv_run_effect)

lemma inv_setBy: "header_inv s \<Longrightarrow> header_inv (setBy d s)"
  by (simp add: setBy_def inv_run_effect)

lemma inv_stored: "header_inv s \<Longrightarrow> header_inv (s\<lparr>stored_by := x\<rparr>)"
  by (simp add: header_inv_def timer_ok_def calls_ok_def idle_ok_def split: option.splits)

lemma inv_onOptionSelect: "header_inv s \<Longrightarrow> header_inv (onOptionSelect d s)"
  by (simp add: onOptionSelect_def inv_setBy inv_stored)

lemma inv_clickOutside: "header_inv s \<Longrightarrow> header_inv (handleClickOutside s)"
  by (simp add: handleClickOutside_def header_inv_def timer_ok_def calls_ok_def idle_ok_def
      split: option.splits)

lemma inv_elapse_idle:
  assumes "header_inv s" and "timer s = None"
  shows "header_inv (elapse d s)"
  using assms
  by (simp add: elapse_def header_inv_def timer_ok_def calls_ok_def idle_ok_def)

lemma inv_elapse_wait:
  assumes "header_inv s" and "timer s = Some p" and "\<not> deadline p \<le> clock s + d"
  shows "header_inv (elapse d s)"
  using assms
  by (simp add: elapse_def header_inv_def timer_ok_def calls_ok_def idle_ok_def)

lemma inv_elapse_clear:
  assumes "header_inv s" and "timer s = Some p" and "deadline p \<le> clock s + d"
    and "tq p = []"
  shows "header_inv (elapse d s)"
  using assms
  by (simp add: elapse_def doFetch_def header_inv_def timer_ok_def calls_ok_def idle_ok_def)

lemma inv_elapse_fetch:
  assumes "header_inv s" and "timer s = Some p" and "deadline p \<le> clock s + d"
    and "tq p \<noteq> []"
  shows "header_inv (elapse d s)"
proof -
  let ?r = "\<lparr>rid = length (calls s), reffect = teffect p, rq = tq p, rby = tby p,
             rlimit = 20, rtime = deadline p\<rparr>"
  have e: "elapse d s =
             s\<lparr>timer := None, inflight := inflight s @ [?r], calls := calls s @ [?r],
               clock := clock s + d\<rparr>"
    using assms(2-4) by (simp add: elapse_def doFetch_def Let_def)
  from assms(1,2) have t: "teffect p = effect s" "tq p = q s" "tby p = searchBy s"
    "\<forall>r \<in> set (calls s). reffect r < effect s"
    by (simp_all add: header_inv_def timer_ok_def)
  from assms(1) have c: "calls_ok s" by (simp add: header_inv_def)
  have c1: "set (inflight s @ [?r]) \<subseteq> set (calls s @ [?r])"
    using c by (auto simp: calls_ok_def)
  have c2: "\<forall>i < length (calls s @ [?r]). rid ((calls s @ [?r]) ! i) = i"
    using c by (auto simp: calls_ok_def nth_append less_Suc_eq)
  have c3: "\<forall>r \<in> set (calls s @ [?r]).
            reffect r \<le> effect s \<and> rq r \<noteq> []
            \<and> (reffect r = effect s \<longrightarrow>
                  rq r = q s \<and> rby r = searchBy s
                  \<and> Suc (rid r) = length (calls s @ [?r]))"
    using c t assms(4) by (auto simp: calls_ok_def)
  have "calls_ok (elapse d s)"
    unfolding e calls_ok_def using c1 c2 c3 by simp
  moreover have "timer_ok (elapse d s)" unfolding e by (simp add: timer_ok_def)
  moreover have "idle_ok (elapse d s)"
    unfolding e using t(2) assms(4) by (simp add: idle_ok_def)
  ultimately show ?thesis by (simp add: header_inv_def)
qed

lemma inv_elapse: "header_inv s \<Longrightarrow> header_inv (elapse d s)"
proof (cases "timer s")
  case None
  assume "header_inv s"
  then show ?thesis using None by (rule inv_elapse_idle)
next
  case (Some p)
  assume i: "header_inv s"
  show ?thesis
  proof (cases "deadline p \<le> clock s + d")
    case False
    with i Some show ?thesis by (rule inv_elapse_wait)
  next
    case True
    show ?thesis
    proof (cases "tq p = []")
      case True
      with i Some \<open>deadline p \<le> clock s + d\<close> show ?thesis by (rule inv_elapse_clear)
    next
      case False
      with i Some \<open>deadline p \<le> clock s + d\<close> show ?thesis by (rule inv_elapse_fetch)
    qed
  qed
qed


lemma find_rid_inflight:
  assumes "calls_ok s" and "r \<in> set (inflight s)"
  shows "find (\<lambda>x. rid x = rid r) (inflight s) = Some r"
proof -
  from assms have idx: "\<forall>i < length (calls s). rid (calls s ! i) = i"
    and sub: "set (inflight s) \<subseteq> set (calls s)"
    by (simp_all add: calls_ok_def)
  have uniq: "x = y" if "x \<in> set (calls s)" "y \<in> set (calls s)" "rid x = rid y" for x y
  proof -
    from that obtain i j where "i < length (calls s)" "calls s ! i = x"
      "j < length (calls s)" "calls s ! j = y"
      by (auto simp: in_set_conv_nth)
    with idx that(3) show ?thesis by auto
  qed
  have "find (\<lambda>x. rid x = rid r) (inflight s) \<noteq> None"
    using assms(2) by (auto simp: find_None_iff)
  then obtain r' where f: "find (\<lambda>x. rid x = rid r) (inflight s) = Some r'" by auto
  then have "rid r' = rid r" and "r' \<in> set (inflight s)"
    by (auto simp: find_Some_iff)
  with sub assms(2) uniq have "r' = r" by blast
  with f show ?thesis by simp
qed

lemma find_inflight_member:
  "find (\<lambda>x. rid x = i) (inflight s) = Some r \<Longrightarrow> r \<in> set (inflight s) \<and> rid r = i"
  by (auto simp: find_Some_iff)

lemma inv_settle:
  assumes "header_inv s"
  shows "header_inv (settle i resp s)"
proof (cases "find (\<lambda>x. rid x = i) (inflight s)")
  case None
  then show ?thesis using assms by (simp add: settle_def)
next
  case (Some r)
  then have m: "r \<in> set (inflight s)" by (auto simp: find_Some_iff)
  from assms have t: "timer_ok s" and c: "calls_ok s" and d: "idle_ok s"
    by (simp_all add: header_inv_def)
  let ?s1 = "s\<lparr>inflight := filter (\<lambda>r. rid r \<noteq> i) (inflight s)\<rparr>"
  have e: "settle i resp s = doFetch_resume r resp ?s1"
    using Some by (simp add: settle_def)
  have stale: "reffect r \<noteq> effect s" if "q s = []"
  proof -
    from m c have "r \<in> set (calls s)" by (auto simp: calls_ok_def)
    with c have "rq r \<noteq> []" "reffect r = effect s \<longrightarrow> rq r = q s"
      by (auto simp: calls_ok_def)
    with that show ?thesis by auto
  qed
  have t': "timer_ok (settle i resp s)"
    unfolding e using t
    by (cases resp) (auto simp: doFetch_resume_def timer_ok_def split: option.splits)
  have c': "calls_ok (settle i resp s)"
    unfolding e using c
    by (cases resp) (auto simp: doFetch_resume_def calls_ok_def)
  have d': "idle_ok (settle i resp s)"
    unfolding e using d stale
    by (cases resp) (auto simp: doFetch_resume_def idle_ok_def)
  from t' c' d' show ?thesis by (simp add: header_inv_def)
qed

lemma inv_handleSelect:
  assumes "header_inv s"
  shows "header_inv (handleSelect x s)"
proof -
  let ?s1 = "(case truthy_id x of
                  Some i \<Rightarrow> s\<lparr>navigated := navigated s @ [DetailRoute i]\<rparr>
                | None \<Rightarrow>
                    s\<lparr>navigated := navigated s @
                        [RootQuery [(dimension_key (searchBy s), String_of_suggestion x)]]\<rparr>)"
  let ?s2 = "?s1\<lparr>menuOpen := False, suggests := []\<rparr>"
  have i2: "header_inv ?s2"
    using assms
    by (cases "truthy_id x")
       (simp_all add: header_inv_def timer_ok_def calls_ok_def idle_ok_def split: option.splits)
  have "handleSelect x s = setQ [] ?s2" by (simp add: handleSelect_def Let_def)
  then show ?thesis using i2 by (simp add: inv_setQ)
qed

lemma inv_step: "header_inv s \<Longrightarrow> header_inv (step s e)"
  by (cases e)
     (simp_all add: inv_setQ inv_onOptionSelect inv_elapse inv_settle inv_clickOutside
        inv_handleSelect)

lemma run_snoc: "run (es @ [e]) s = step (run es s) e"
  by (simp add: run_def)

lemma inv_run: "header_inv s \<Longrightarrow> header_inv (run es s)"
  by (induction es rule: rev_induct) (simp_all add: run_snoc inv_step, simp add: run_def)

lemma inv_reachable: "header_inv (run es (init_header b))"
  using inv_init by (rule inv_run)

text \<open>
  C1, as stated, at two overlapping calls: the suggestions of \<open>x\<close> are shown, the
  calls for \<open>a\<close> and for \<open>ab\<close> are issued, and the call for \<open>a\<close> settles after
  the call for \<open>ab\<close> was issued. Its response is not applied; the query is \<open>ab\<close>,
  and what is suggested is still the result of the call for \<open>x\<close>, not of the call
  issued for the current query.
\<close>

theorem suggestions_of_earlier_query_counterexample:
  "q (run [Input ''x'', Elapse 250, Settle 0 (Fulfilled (Some [SText ''xacuti''])),
           Input ''a'', Elapse 250, Input ''ab'', Elapse 250,
           Settle 1 (Fulfilled (Some [SText ''aloo'']))] (init_header None)) = ''ab''
   \<and> map rq (calls (run [Input ''x'', Elapse 250, Settle 0 (Fulfilled (Some [SText ''xacuti''])),
           Input ''a'', Elapse 250, Input ''ab'', Elapse 250,
           Settle 1 (Fulfilled (Some [SText ''aloo'']))] (init_header None)))
       = [''x'', ''a'', ''ab'']
   \<and> suggests (run [Input ''x'', Elapse 250, Settle 0 (Fulfilled (Some [SText ''xacuti''])),
           Input ''a'', Elapse 250, Input ''ab'', Elapse 250,
           Settle 1 (Fulfilled (Some [SText ''aloo'']))] (init_header None))
       = [SText ''xacuti'']
   \<and> menuOpen (run [Input ''x'', Elapse 250, Settle 0 (Fulfilled (Some [SText ''xacuti''])),
           Input ''a'', Elapse 250, Input ''ab'', Elapse 250,
           Settle 1 (Fulfilled (Some [SText ''aloo'']))] (init_header None))"
  by code_simp

text \<open>
  C1 (amended). In every state the component can reach, take a call in flight that
  was issued for another text or another dimension than the current ones, or after
  which a newer call has been issued. However it settles, the suggestions and the menu
  flag stay what they were: a response is applied only when it is the response of the
  call issued last, and that call was issued for the current query.
\<close>

theorem stale_response_never_applied:
  assumes "s = run es (init_header b)"
    and "r \<in> set (inflight s)"
    and "rq r \<noteq> q s \<or> rby r \<noteq> searchBy s \<or> Suc (rid r) < length (calls s)"
  shows "suggests (step s (Settle (rid r) resp)) = suggests s
     \<and> menuOpen (step s (Settle (rid r) resp)) = menuOpen s"
proof -
  have "header_inv s" unfolding assms(1) by (rule inv_reachable)
  then have c: "calls_ok s" by (simp add: header_inv_def)
  from c assms(2) have "r \<in> set (calls s)" by (auto simp: calls_ok_def)
  with c have "reffect r = effect s \<longrightarrow>
      rq r = q s \<and> rby r = searchBy s \<and> Suc (rid r) = length (calls s)"
    by (auto simp: calls_ok_def)
  with assms(3) have stale: "reffect r \<noteq> effect s" by auto
  have "find (\<lambda>x. rid x = rid r) (inflight s) = Some r"
    using c assms(2) by (rule find_rid_inflight)
  then have "settle (rid r) resp s =
      doFetch_resume r resp (s\<lparr>inflight := filter (\<lambda>x. rid x \<noteq> rid r) (inflight s)\<rparr>)"
    by (simp add: settle_def)
  then show ?thesis using stale by (cases resp) (simp_all add: doFetch_resume_def)
qed

text \<open>
  The amended C1 at the call for \<open>a\<close> that settles after the call for \<open>al\<close> was
  issued and applied: the suggestions of \<open>al\<close> stay.
\<close>

theorem stale_response_never_applied_witness:
  "\<lparr>rid = 0, reffect = 2, rq = ''a'', rby = Name, rlimit = 20, rtime = 250\<rparr>
     \<in> set (inflight (run [Input ''a'', Elapse 250, Input ''al'', Elapse 250,
                             Settle 1 (Fulfilled (Some [SText ''aloo'']))] (init_header None)))
   \<and> q (run [Input ''a'', Elapse 250, Input ''al'', Elapse 250,
             Settle 1 (Fulfilled (Some [SText ''aloo'']))] (init_header None)) = ''al''
   \<and> suggests (step (run [Input ''a'', Elapse 250, Input ''al'', Elapse 250,
                          Settle 1 (Fulfilled (Some [SText ''aloo'']))] (init_header None))
                 (Settle 0 (Fulfilled (Some [SText ''aam''])))) = [SText ''aloo'']"
proof -
  let ?s = "run [Input ''a'', Elapse 250, Input ''al'', Elapse 250,
                 Settle 1 (Fulfilled (Some [SText ''aloo'']))] (init_header None)"
  let ?r = "\<lparr>rid = 0, reffect = 2, rq = ''a'', rby = Name, rlimit = 20, rtime = 250\<rparr>"
  have m: "?r \<in> set (inflight ?s)" by code_simp
  have qq: "q ?s = ''al''" by code_simp
  have old: "rq ?r \<noteq> q ?s \<or> rby ?r \<noteq> searchBy ?s \<or> Suc (rid ?r) < length (calls ?s)"
    using qq by simp
  have sg: "suggests ?s = [SText ''aloo'']" by code_simp
  have "suggests (step ?s (Settle (rid ?r) (Fulfilled (Some [SText ''aam'']))))
          = suggests ?s"
    using stale_response_never_applied [OF refl m old] by blast
  then show ?thesis using m qq sg by simp
qed

text \<open>
  C3, as stated, at the text cleared while the suggestions of \<open>a\<close> are shown: right
  after \<open>setQ('')\<close> the suggestions are still there and the menu is still open.
\<close>

theorem empty_query_not_cleared_at_once_counterexample:
  "suggests (setQ [] (run [Input ''a'', Elapse 250,
       Settle 0 (Fulfilled (Some [SText ''aloo'']))] (init_header None))) = [SText ''aloo'']
   \<and> menuOpen (setQ [] (run [Input ''a'', Elapse 250,
       Settle 0 (Fulfilled (Some [SText ''aloo'']))] (init_header None)))"
  by code_simp

text \<open>
  C3 (amended). In every state the component can reach, setting the text to the empty
  string and then letting the 250 ms of the debounce pass with no other event leaves
  the suggestions empty and the menu closed, and issues no call; no call is ever issued
  for an empty text.
\<close>

theorem empty_query_cleared_after_debounce:
  assumes "s = run es (init_header b)" and "250 \<le> d"
  shows "suggests (run [Input [], Elapse d] s) = []
     \<and> \<not> menuOpen (run [Input [], Elapse d] s)
     \<and> calls (run [Input [], Elapse d] s) = calls s
     \<and> (\<forall>r \<in> set (calls s). rq r \<noteq> [])"
proof -
  have i: "header_inv s" unfolding assms(1) by (rule inv_reachable)
  then have c: "calls_ok s" and t: "timer_ok s" and idl: "idle_ok s"
    by (simp_all add: header_inv_def)
  have r: "run [Input [], Elapse d] s = elapse d (setQ [] s)" by (simp add: run_def)
  have main: "suggests (elapse d (setQ [] s)) = [] \<and> \<not> menuOpen (elapse d (setQ [] s))
     \<and> calls (elapse d (setQ [] s)) = calls s"
  proof (cases "q s = []")
    case False
    then show ?thesis using assms(2)
      by (simp add: setQ_def run_effect_def elapse_def doFetch_def)
  next
    case True
    then have same: "setQ [] s = s" by (simp add: setQ_def)
    show ?thesis
    proof (cases "timer s")
      case None
      with True idl show ?thesis unfolding same by (simp add: idle_ok_def elapse_def)
    next
      case (Some p)
      with t True have "tq p = []" "deadline p \<le> clock s + 250"
        by (simp_all add: timer_ok_def)
      with Some assms(2) show ?thesis unfolding same
        by (simp add: elapse_def doFetch_def)
    qed
  qed
  from c have "\<forall>r \<in> set (calls s). rq r \<noteq> []" by (simp add: calls_ok_def)
  with main show ?thesis unfolding r by simp
qed

text \<open>The amended C3 at the text cleared while the suggestions of \<open>a\<close> are shown.\<close>

theorem empty_query_cleared_after_debounce_witness:
  "suggests (run [Input ''a'', Elapse 250,
       Settle 0 (Fulfilled (Some [SText ''aloo'']))] (init_header None)) = [SText ''aloo'']
   \<and> suggests (run [Input [], Elapse 250] (run [Input ''a'', Elapse 250,
       Settle 0 (Fulfilled (Some [SText ''aloo'']))] (init_header None))) = []
   \<and> \<not> menuOpen (run [Input [], Elapse 250] (run [Input ''a'', Elapse 250,
       Settle 0 (Fulfilled (Some [SText ''aloo'']))] (init_header None)))"
proof -
  have a: "suggests (run [Input ''a'', Elapse 250,
       Settle 0 (Fulfilled (Some [SText ''aloo'']))] (init_header None)) = [SText ''aloo'']"
    by code_simp
  have b: "(250::nat) \<le> 250" by simp
  show ?thesis
    using empty_query_cleared_after_debounce [OF refl b,
      of "[Input ''a'', Elapse 250, Settle 0 (Fulfilled (Some [SText ''aloo'']))]" None] a
    by blast
qed

lemma find_rid_None: "(find (\<lambda>r. rid r = i) xs = None) = (i \<notin> rid ` set xs)"
  by (auto simp: find_None_iff)

text \<open>
  C4, as stated, at a rejected call for \<open>al\<close> while the suggestions of \<open>a\<close> are
  shown: after the rejection the old suggestions are still there and the menu is open.
\<close>

theorem rejected_fetch_counterexample:
  "suggests (run [Input ''a'', Elapse 250, Settle 0 (Fulfilled (Some [SText ''aloo''])),
                  Input ''al'', Elapse 250, Settle 1 Rejected] (init_header None))
     = [SText ''aloo'']
   \<and> menuOpen (run [Input ''a'', Elapse 250, Settle 0 (Fulfilled (Some [SText ''aloo''])),
                  Input ''al'', Elapse 250, Settle 1 Rejected] (init_header None))"
  by code_simp

text \<open>
  C4 (amended). A rejected call is caught: its continuation logs to the console and
  returns; the suggestions, the menu flag and the query text are exactly what they were
  before the rejection.
\<close>

theorem rejected_fetch_leaves_suggestions:
  "suggests (settle i Rejected s) = suggests s
   \<and> menuOpen (settle i Rejected s) = menuOpen s
   \<and> q (settle i Rejected s) = q s
   \<and> console (settle i Rejected s) =
       (if i \<in> rid ` set (inflight s) then console s @ [''Error fetching suggestions:'']
        else console s)"
proof (cases "find (\<lambda>r. rid r = i) (inflight s)")
  case None
  then have "i \<notin> rid ` set (inflight s)" by (simp add: find_rid_None)
  with None show ?thesis by (simp add: settle_def)
next
  case (Some r)
  then have "i \<in> rid ` set (inflight s)"
    using find_rid_None [of i "inflight s"] by auto
  with Some show ?thesis by (simp add: settle_def doFetch_resume_def)
qed

text \<open>The amended C4 at the rejected call for \<open>al\<close>.\<close>

theorem rejected_fetch_witness:
  "suggests (settle 1 Rejected
      (run [Input ''a'', Elapse 250, Settle 0 (Fulfilled (Some [SText ''aloo''])),
            Input ''al'', Elapse 250] (init_header None))) = [SText ''aloo'']
   \<and> menuOpen (settle 1 Rejected
      (run [Input ''a'', Elapse 250, Settle 0 (Fulfilled (Some [SText ''aloo''])),
            Input ''al'', Elapse 250] (init_header None)))"
proof -
  have a: "suggests (run [Input ''a'', Elapse 250, Settle 0 (Fulfilled (Some [SText ''aloo''])),
            Input ''al'', Elapse 250] (init_header None)) = [SText ''aloo'']"
    by code_simp
  have b: "menuOpen (run [Input ''a'', Elapse 250, Settle 0 (Fulfilled (Some [SText ''aloo''])),
            Input ''al'', Elapse 250] (init_header None))"
    by code_simp
  show ?thesis
    using rejected_fetch_leaves_suggestions [of 1
      "run [Input ''a'', Elapse 250, Settle 0 (Fulfilled (Some [SText ''aloo''])),
            Input ''al'', Elapse 250] (init_header None)"] a b
    by simp
qed

text \<open>
  \<open>handleSelect\<close> of the component with four dimensions: an item with an identifier
  goes to the detail view, any other sets the parameter named after the dimension;
  both close the menu and clear the suggestions and the text.
\<close>

lemma handleSelect_clears:
  "\<not> menuOpen (handleSelect x s) \<and> suggests (handleSelect x s) = []
   \<and> q (handleSelect x s) = []
   \<and> navigated (handleSelect x s) = navigated s @
        [case truthy_id x of
           Some i \<Rightarrow> DetailRoute i
         | None \<Rightarrow> RootQuery [(dimension_key (searchBy s), String_of_suggestion x)]]"
  by (simp add: handleSelect_def setQ_def run_effect_def Let_def split: option.splits)

text \<open>
  In the copy with three dimensions the detail branch changes nothing but the
  navigation.
\<close>

lemma handleSelect_three_detail:
  assumes "searchBy s = Name" and "truthy_id x = Some i"
  shows "handleSelect_three x s = s\<lparr>navigated := navigated s @ [DetailRoute i]\<rparr>"
  using assms by (simp add: handleSelect_three_def)

text \<open>
  C5, in the copy of the component with three dimensions: with the text \<open>da\<close>
  typed, the item with identifier \<open>12\<close> suggested and the menu open, selecting the
  item under the dimension \<open>name\<close> navigates to the detail view of 12 and returns at
  once; the menu is still open, the suggestions and the query text are still there.
\<close>

theorem handleSelect_three_detail_keeps_menu:
  "handleSelect_three (SObject (Some ''12'') (Some ''Dal''))
     \<lparr>q = ''da'', searchBy = Name, suggests = [SObject (Some ''12'') (Some ''Dal'')],
      menuOpen = True, clock = 300, effect = 2, timer = None, inflight = [],
      calls = [\<lparr>rid = 0, reffect = 2, rq = ''da'', rby = Name, rlimit = 8, rtime = 250\<rparr>],
      navigated = [], console = [], stored_by = None\<rparr>
   = \<lparr>q = ''da'', searchBy = Name, suggests = [SObject (Some ''12'') (Some ''Dal'')],
      menuOpen = True, clock = 300, effect = 2, timer = None, inflight = [],
      calls = [\<lparr>rid = 0, reffect = 2, rq = ''da'', rby = Name, rlimit = 8, rtime = 250\<rparr>],
      navigated = [DetailRoute ''12''], console = [], stored_by = None\<rparr>"
  by (simp add: handleSelect_three_def)

lemma run_Cons: "run (e # es) s = run es (step s e)"
  by (simp add: run_def)

lemma step_update:
  assumes "updated u (q s, searchBy s) \<noteq> (q s, searchBy s)"
  shows "(q (step s (update_event u)), searchBy (step s (update_event u)))
           = updated u (q s, searchBy s)
     \<and> calls (step s (update_event u)) = calls s
     \<and> clock (step s (update_event u)) = clock s
     \<and> timer (step s (update_event u)) =
         Some \<lparr>deadline = clock s + 250, teffect = effect (step s (update_event u)),
               tq = q (step s (update_event u)), tby = searchBy (step s (update_event u))\<rparr>"
proof (cases u)
  case (NewText v)
  with assms have "v \<noteq> q s" by simp
  then show ?thesis using NewText by (simp add: setQ_def run_effect_def)
next
  case (NewDimension d)
  with assms have "d \<noteq> searchBy s" by simp
  then show ?thesis using NewDimension
    by (simp add: onOptionSelect_def setBy_def run_effect_def)
qed

lemma elapse_pending:
  assumes "timer s = Some p" and "deadline p = clock s + 250" and "g < 250"
  shows "elapse g s = s\<lparr>clock := clock s + g\<rparr>"
  using assms by (simp add: elapse_def)

lemma burst_state:
  assumes "changing (q s0, searchBy s0) u ups" and "list_all (\<lambda>(g, w). g < 250) ups"
  shows "(q (run (burst u ups) s0), searchBy (run (burst u ups) s0))
           = final_query (q s0, searchBy s0) u ups
     \<and> calls (run (burst u ups) s0) = calls s0
     \<and> timer (run (burst u ups) s0) =
         Some \<lparr>deadline = clock (run (burst u ups) s0) + 250,
               teffect = effect (run (burst u ups) s0),
               tq = q (run (burst u ups) s0), tby = searchBy (run (burst u ups) s0)\<rparr>"
  using assms
proof (induction ups arbitrary: u s0)
  case Nil
  then have "updated u (q s0, searchBy s0) \<noteq> (q s0, searchBy s0)" by simp
  then show ?case using step_update [of u s0] by (simp add: run_def)
next
  case (Cons x rest)
  obtain g w where x: "x = (g, w)" by (cases x)
  from Cons.prems(1) x have ch: "updated u (q s0, searchBy s0) \<noteq> (q s0, searchBy s0)"
    and chr: "changing (updated u (q s0, searchBy s0)) w rest"
    by simp_all
  from Cons.prems(2) x have gl: "g < 250" and gr: "list_all (\<lambda>(g, w). g < 250) rest"
    by simp_all
  define s1 where "s1 = step s0 (update_event u)"
  note su = step_update [OF ch, folded s1_def]
  define s2 where "s2 = elapse g s1"
  have e: "s2 = s1\<lparr>clock := clock s1 + g\<rparr>"
    unfolding s2_def using su gl by (intro elapse_pending [where p = "the (timer s1)"]) simp_all
  have q2: "(q s2, searchBy s2) = updated u (q s0, searchBy s0)" and c2: "calls s2 = calls s0"
    unfolding e using su by simp_all
  have r: "run (burst u (x # rest)) s0 = run (burst w rest) s2"
    by (simp add: x run_Cons s1_def s2_def)
  have "changing (q s2, searchBy s2) w rest" using chr q2 by simp
  then have ih: "(q (run (burst w rest) s2), searchBy (run (burst w rest) s2))
           = final_query (q s2, searchBy s2) w rest
     \<and> calls (run (burst w rest) s2) = calls s2
     \<and> timer (run (burst w rest) s2) =
         Some \<lparr>deadline = clock (run (burst w rest) s2) + 250,
               teffect = effect (run (burst w rest) s2),
               tq = q (run (burst w rest) s2), tby = searchBy (run (burst w rest) s2)\<rparr>"
    using gr by (rule Cons.IH)
  have f: "final_query (q s0, searchBy s0) u (x # rest) = final_query (q s2, searchBy s2) w rest"
    by (simp add: x q2)
  show ?case unfolding r f using ih c2 by simp
qed

text \<open>
  C6, as stated: \<open>a\<close> typed and deleted 100 ms later, and after a second of quiet no
  call has been issued; \<open>a\<close> typed and the current dimension chosen again 200 ms
  later, and the call is issued 50 ms after that, at 250 ms; and with \<open>ab\<close> typed
  100 ms after the dimension, two calls have been issued.
\<close>

theorem burst_counterexample:
  "length (calls (run (burst (NewText ''a'') [(100, NewText [])] @ [Elapse 1000])
                   (init_header None))) = 0
   \<and> map rtime (calls (run (burst (NewText ''a'') [(200, NewDimension Name)] @ [Elapse 50])
                   (init_header None))) = [250]
   \<and> length (calls (run (burst (NewText ''a'') [(200, NewDimension Name), (100, NewText ''ab'')]
                          @ [Elapse 250]) (init_header None))) = 2"
  by code_simp

text \<open>
  C6 (amended). From any state, take a burst of updates of the query, each changing
  the text or the dimension it meets and each less than 250 ms after the one before.
  During the burst no call is issued; after it the query is the final one and the only
  timer pending is the one started by the last update, due 250 ms after it: every
  update cancelled the timer before it. With \<open>d\<close> more milliseconds of quiet, no call
  is issued while \<open>d < 250\<close>; once \<open>d \<ge> 250\<close> exactly one call has been issued, at
  250 ms after the last update and for the final text and dimension, unless the final
  text is empty, when none is issued.
\<close>

theorem debounce_burst:
  assumes "changing (q s0, searchBy s0) u ups" and "list_all (\<lambda>(g, w). g < 250) ups"
  shows "q (run (burst u ups) s0) = fst (final_query (q s0, searchBy s0) u ups)
     \<and> searchBy (run (burst u ups) s0) = snd (final_query (q s0, searchBy s0) u ups)
     \<and> calls (run (burst u ups) s0) = calls s0
     \<and> timer (run (burst u ups) s0) =
         Some \<lparr>deadline = clock (run (burst u ups) s0) + 250,
               teffect = effect (run (burst u ups) s0),
               tq = fst (final_query (q s0, searchBy s0) u ups),
               tby = snd (final_query (q s0, searchBy s0) u ups)\<rparr>
     \<and> calls (run (burst u ups @ [Elapse d]) s0) =
         (if d < 250 \<or> fst (final_query (q s0, searchBy s0) u ups) = [] then calls s0
          else calls s0 @
                 [\<lparr>rid = length (calls s0), reffect = effect (run (burst u ups) s0),
                   rq = fst (final_query (q s0, searchBy s0) u ups),
                   rby = snd (final_query (q s0, searchBy s0) u ups), rlimit = 20,
                   rtime = clock (run (burst u ups) s0) + 250\<rparr>])"
proof -
  define s1 where "s1 = run (burst u ups) s0"
  define f where "f = final_query (q s0, searchBy s0) u ups"
  have "(q s1, searchBy s1) = f
     \<and> calls s1 = calls s0
     \<and> timer s1 = Some \<lparr>deadline = clock s1 + 250, teffect = effect s1,
                          tq = q s1, tby = searchBy s1\<rparr>"
    unfolding s1_def f_def using assms by (rule burst_state)
  then have st: "q s1 = fst f \<and> searchBy s1 = snd f \<and> calls s1 = calls s0
     \<and> timer s1 = Some \<lparr>deadline = clock s1 + 250, teffect = effect s1,
                          tq = fst f, tby = snd f\<rparr>"
    by (cases f) auto
  have r: "run (burst u ups @ [Elapse d]) s0 = elapse d s1"
    by (simp add: run_def s1_def)
  have "calls (elapse d s1) =
         (if d < 250 \<or> fst f = [] then calls s0
          else calls s0 @
                 [\<lparr>rid = length (calls s0), reffect = effect s1,
                   rq = fst f, rby = snd f, rlimit = 20,
                   rtime = clock s1 + 250\<rparr>])"
    using st by (simp add: elapse_def doFetch_def Let_def)
  with st have "q s1 = fst f \<and> searchBy s1 = snd f \<and> calls s1 = calls s0
     \<and> timer s1 = Some \<lparr>deadline = clock s1 + 250, teffect = effect s1,
                          tq = fst f, tby = snd f\<rparr>
     \<and> calls (run (burst u ups @ [Elapse d]) s0) =
         (if d < 250 \<or> fst f = [] then calls s0
          else calls s0 @
                 [\<lparr>rid = length (calls s0), reffect = effect s1,
                   rq = fst f, rby = snd f, rlimit = 20,
                   rtime = clock s1 + 250\<rparr>])"
    unfolding r by simp
  then show ?thesis unfolding s1_def f_def .
qed

text \<open>
  The amended C6 at \<open>a\<close> typed, the dimension \<open>origin\<close> chosen 100 ms later and
  \<open>al\<close> typed 249 ms after that: one call, for \<open>al\<close> by origin, 250 ms after the
  last update, and none 249 ms after it.
\<close>

theorem debounce_burst_witness:
  "calls (run (burst (NewText ''a'') [(100, NewDimension Origin), (249, NewText ''al'')]
                @ [Elapse 250]) (init_header None))
     = [\<lparr>rid = 0, reffect = 4, rq = ''al'', rby = Origin, rlimit = 20, rtime = 599\<rparr>]
   \<and> calls (run (burst (NewText ''a'') [(100, NewDimension Origin), (249, NewText ''al'')]
                @ [Elapse 249]) (init_header None))
     = []"
proof -
  define s0 where "s0 = init_header None"
  define ups where "ups = [(100::nat, NewDimension Origin), (249, NewText ''al'')]"
  have h1: "changing (q s0, searchBy s0) (NewText ''a'') ups"
    unfolding s0_def ups_def by code_simp
  have h2: "list_all (\<lambda>(g, w). g < 250) ups" unfolding ups_def by code_simp
  have c0: "calls s0 = []" unfolding s0_def by code_simp
  have fq: "final_query (q s0, searchBy s0) (NewText ''a'') ups = (''al'', Origin)"
    unfolding s0_def ups_def by code_simp
  have e1: "effect (run (burst (NewText ''a'') ups) s0) = 4"
    unfolding s0_def ups_def by code_simp
  have k1: "clock (run (burst (NewText ''a'') ups) s0) = 349"
    unfolding s0_def ups_def by code_simp
  have "calls (run (burst (NewText ''a'') ups @ [Elapse 250]) s0)
     = [\<lparr>rid = 0, reffect = 4, rq = ''al'', rby = Origin, rlimit = 20, rtime = 599\<rparr>]
   \<and> calls (run (burst (NewText ''a'') ups @ [Elapse 249]) s0) = []"
    using debounce_burst [OF h1 h2, of 250] debounce_burst [OF h1 h2, of 249] c0 fq e1 k1
    by simp
  then show ?thesis unfolding s0_def ups_def .
qed

end
